theory Spec2Isabelle
  imports Main
begin

section \<open>Data model\<close>

text \<open>
  The billing core of \<^verbatim>\<open>app/services/daily_subscription_service.py\<close> and the
  middleware of \<^verbatim>\<open>app/middlewares/subscription_checker.py\<close>, as pure functions over
  an explicit store. Money is in kopeks and traffic in whole gigabytes, both Python
  integers (\<open>int\<close>); timestamps are seconds (\<open>int\<close>); primary keys are \<open>nat\<close>.
  A nullable column is an \<open>option\<close>.
\<close>

datatype subscription_status = Trial | Active | Expired | Disabled | Pending

record user =
  telegram_id :: int
  balance_kopeks :: int
  remnawave_uuid :: "string option"

record tariff =
  tariff_name :: string
  daily_price_kopeks :: int
  tariff_traffic_limit_gb :: "int option"

record subscription =
  sub_id :: nat
  sub_user_id :: nat
  tariff_id :: "nat option"
  status :: subscription_status
  end_date :: "int option"
  traffic_limit_gb :: int
  purchased_traffic_gb :: "int option"
  traffic_reset_at :: "int option"
  is_daily :: bool
  last_daily_charge_at :: "int option"
  next_charge_at :: int
  updated_at :: int

record traffic_purchase =
  purchase_id :: nat
  subscription_id :: nat
  traffic_gb :: int
  expires_at :: int

text \<open>
  The description of a ledger entry: the tariff's name, and the device count when it is
  above one (lines 173-176 of the service).
\<close>

datatype description = Daily_payment string "int option"

datatype transaction_type = Subscription_payment

datatype payment_method = Manual

record transaction =
  txn_user_id :: nat
  txn_type :: transaction_type
  amount_kopeks :: int
  txn_description :: description
  txn_payment_method :: payment_method

text \<open>
  The lines the decay unit writes to the logger at warning level or above: the
  data-integrity error of line 385, the negative-base warning of line 403 and the
  critical error of line 422. Each carries the subscription and the two numbers of its
  message.
\<close>

datatype log_event =
    Data_error nat int int
  | Negative_base_limit nat int int
  | Limit_below_base nat int int

text \<open>
  The session \<open>db\<close>: users and tariffs by primary key (the key of the map is the
  row's \<open>id\<close>), the subscription rows, the traffic purchases (the quota lots), the
  ledger, and the logger's lines.
\<close>

record db_state =
  users :: "nat \<rightharpoonup> user"
  tariffs :: "nat \<rightharpoonup> tariff"
  subscriptions :: "subscription list"
  purchases :: "traffic_purchase list"
  transactions :: "transaction list"
  journal :: "log_event list"

datatype error = Store_failure

definition get_subscription :: "db_state \<Rightarrow> nat \<Rightarrow> subscription option" where
  "get_subscription db sid = find (\<lambda>s. sub_id s = sid) (subscriptions db)"

definition update_subscription ::
  "nat \<Rightarrow> (subscription \<Rightarrow> subscription) \<Rightarrow> db_state \<Rightarrow> db_state" where
  "update_subscription sid f db =
     db\<lparr>subscriptions := map (\<lambda>s. if sub_id s = sid then f s else s) (subscriptions db)\<rparr>"

definition write_log :: "log_event \<Rightarrow> db_state \<Rightarrow> db_state" where
  "write_log e db = db\<lparr>journal := journal db @ [e]\<rparr>"

section \<open>Traffic quota decay\<close>

text \<open>
  What the decay unit meets outside its own code: \<open>get_tariff_by_id\<close> (line 398) and
  \<open>get_user_by_id\<close> (line 472) are awaited outside any \<open>try\<close> of the unit, so a store
  failure there leaves the unit as an exception; \<open>bot\<close> is \<open>self._bot\<close>; \<open>clock\<close> is the
  reading of \<open>datetime.utcnow()\<close> inside the unit.
\<close>

record reset_env =
  tariff_lookup_fails :: bool
  notify_lookup_fails :: bool
  bot :: bool
  clock :: int

text \<open>Lines 384-390: the expired total, clamped to the stored purchased traffic.\<close>

definition clamp_expired :: "int \<Rightarrow> int \<Rightarrow> int" where
  "clamp_expired total_expired_gb old_purchased =
     (if total_expired_gb > old_purchased then old_purchased else total_expired_gb)"

text \<open>
  Lines 396-399: the tariff is looked up only when \<open>subscription.tariff_id\<close> is truthy
  (neither \<open>None\<close> nor 0).
\<close>

definition lookup_tariff :: "reset_env \<Rightarrow> db_state \<Rightarrow> subscription \<Rightarrow> error + tariff option" where
  "lookup_tariff env db s =
     (case tariff_id s of
        None \<Rightarrow> Inr None
      | Some tid \<Rightarrow>
          if tid = 0 then Inr None
          else if tariff_lookup_fails env then Inl Store_failure
          else Inr (tariffs db tid))"

text \<open>Line 400: \<open>tariff.traffic_limit_gb or 0\<close>.\<close>

definition tariff_base_limit :: "tariff \<Rightarrow> int" where
  "tariff_base_limit t = (case tariff_traffic_limit_gb t of None \<Rightarrow> 0 | Some g \<Rightarrow> g)"

text \<open>
  Lines 393-410: the base limit the unit works with, from the stored difference
  \<open>old_limit - old_purchased\<close> and the tariff found (if any).
\<close>

definition base_limit_used :: "int \<Rightarrow> tariff option \<Rightarrow> int" where
  "base_limit_used base_limit tariff =
     max 0 (case tariff of
              None \<Rightarrow> base_limit
            | Some t \<Rightarrow> if base_limit < 0 then tariff_base_limit t else base_limit)"

text \<open>Lines 417-431: the new limit and the new purchased traffic, as they are stored.\<close>

definition new_limits :: "int \<Rightarrow> int \<Rightarrow> int \<Rightarrow> int \<times> int" where
  "new_limits base_limit old_purchased total_expired_gb =
     (let new_purchased = old_purchased - total_expired_gb;
          new_limit = base_limit + new_purchased
      in if new_limit < base_limit then (max 0 base_limit, max 0 0)
         else (max 0 new_limit, max 0 new_purchased))"

text \<open>Lines 413-414: \<open>db.delete\<close> of every expired purchase of the group.\<close>

definition delete_purchases :: "traffic_purchase list \<Rightarrow> db_state \<Rightarrow> db_state" where
  "delete_purchases ps db = db\<lparr>purchases := filter (\<lambda>p. p \<notin> set ps) (purchases db)\<rparr>"

text \<open>Line 448: the minimum of the expiry dates of a non-empty list.\<close>

fun next_expiry :: "traffic_purchase list \<Rightarrow> int option" where
  "next_expiry [] = None"
| "next_expiry (p # ps) =
     (case next_expiry ps of
        None \<Rightarrow> Some (expires_at p)
      | Some e \<Rightarrow> Some (min (expires_at p) e))"

definition purchased_or_zero :: "subscription \<Rightarrow> int" where
  "purchased_or_zero s = (case purchased_traffic_gb s of None \<Rightarrow> 0 | Some g \<Rightarrow> g)"

text \<open>
  \<open>_reset_subscription_traffic\<close> (lines 366-474). The result is \<open>Inr ()\<close> when the unit
  returns and \<open>Inl\<close> when it raises; the store is the one the unit leaves behind in
  either case.
\<close>

definition reset_subscription_traffic ::
  "reset_env \<Rightarrow> db_state \<Rightarrow> nat \<Rightarrow> traffic_purchase list \<Rightarrow> (error + unit) \<times> db_state" where
  "reset_subscription_traffic env db sid expired_purchases =
     (case get_subscription db sid of
        None \<Rightarrow> (Inr (), db)
      | Some subscription \<Rightarrow>
          (let total_expired_gb = sum_list (map traffic_gb expired_purchases);
               old_limit = traffic_limit_gb subscription;
               old_purchased = purchased_or_zero subscription;
               db1 = (if total_expired_gb > old_purchased
                      then write_log (Data_error sid total_expired_gb old_purchased) db
                      else db);
               total_expired_gb = clamp_expired total_expired_gb old_purchased;
               base_limit = old_limit - old_purchased
           in case lookup_tariff env db1 subscription of
                Inl e \<Rightarrow> (Inl e, db1)
              | Inr tariff \<Rightarrow>
                  (let db2 = (case tariff of
                                None \<Rightarrow> db1
                              | Some t \<Rightarrow>
                                  if base_limit < 0
                                  then write_log (Negative_base_limit sid base_limit (tariff_base_limit t)) db1
                                  else db1);
                       base_limit = base_limit_used base_limit tariff;
                       db3 = delete_purchases expired_purchases db2;
                       db4 = (if base_limit + (old_purchased - total_expired_gb) < base_limit
                              then write_log (Limit_below_base sid
                                     (base_limit + (old_purchased - total_expired_gb)) base_limit) db3
                              else db3);
                       (new_limit, new_purchased) = new_limits base_limit old_purchased total_expired_gb;
                       remaining_purchases =
                         filter (\<lambda>p. subscription_id p = sid \<and> expires_at p > clock env) (purchases db4);
                       db5 = update_subscription sid
                               (\<lambda>s. s\<lparr>traffic_limit_gb := new_limit,
                                       purchased_traffic_gb := Some new_purchased,
                                       traffic_reset_at := next_expiry remaining_purchases,
                                       updated_at := clock env\<rparr>) db4
                   in if bot env \<and> sub_user_id subscription \<noteq> 0 \<and> notify_lookup_fails env
                      then (Inl Store_failure, db5)
                      else (Inr (), db5))))"

text \<open>
  The counters \<open>process_traffic_resets\<close> returns: the dict with the keys
  \<open>checked\<close>, \<open>reset\<close> and \<open>errors\<close>.
\<close>

record reset_stats =
  reset_checked :: nat
  reset :: nat
  reset_errors :: nat

text \<open>Lines 329-336: the purchases whose expiry is at or before \<open>now\<close>.\<close>

definition expired_purchases_at :: "int \<Rightarrow> db_state \<Rightarrow> traffic_purchase list" where
  "expired_purchases_at now db = filter (\<lambda>p. expires_at p \<le> now) (purchases db)"

text \<open>
  Lines 339-343: the expired purchases grouped by subscription. A Python dict keeps the
  order in which its keys were first inserted, so the groups are an association list.
\<close>

fun add_to_group ::
  "traffic_purchase \<Rightarrow> (nat \<times> traffic_purchase list) list \<Rightarrow> (nat \<times> traffic_purchase list) list" where
  "add_to_group p [] = [(subscription_id p, [p])]"
| "add_to_group p ((k, ps) # groups) =
     (if k = subscription_id p then (k, ps @ [p]) # groups
      else (k, ps) # add_to_group p groups)"

definition subscriptions_to_update ::
  "traffic_purchase list \<Rightarrow> (nat \<times> traffic_purchase list) list" where
  "subscriptions_to_update ps = foldl (\<lambda>groups p. add_to_group p groups) [] ps"

text \<open>
  Lines 346-355: one group after the other; a unit that raises adds one to \<open>errors\<close>,
  a unit that returns adds the size of its group to \<open>reset\<close>. The environment of a unit
  is chosen by its subscription.
\<close>

fun reset_groups ::
  "(nat \<Rightarrow> reset_env) \<Rightarrow> (nat \<times> traffic_purchase list) list \<Rightarrow> reset_stats \<Rightarrow> db_state
     \<Rightarrow> reset_stats \<times> db_state" where
  "reset_groups envs [] stats db = (stats, db)"
| "reset_groups envs ((sid, ps) # groups) stats db =
     (case reset_subscription_traffic (envs sid) db sid ps of
        (Inr _, db') \<Rightarrow> reset_groups envs groups (stats\<lparr>reset := reset stats + length ps\<rparr>) db'
      | (Inl _, db') \<Rightarrow> reset_groups envs groups (stats\<lparr>reset_errors := reset_errors stats + 1\<rparr>) db')"

text \<open>
  \<open>process_traffic_resets\<close> (lines 310-364). When the query for the expired purchases
  fails (\<open>query_fails\<close>), the handler of line 357 logs, rolls back and the counters are
  returned as they were initialised. The closing commit of line 356 writes nothing the
  units have not written already (each unit commits at line 453).
\<close>

definition process_traffic_resets ::
  "bool \<Rightarrow> (nat \<Rightarrow> reset_env) \<Rightarrow> int \<Rightarrow> db_state \<Rightarrow> reset_stats \<times> db_state" where
  "process_traffic_resets query_fails envs now db =
     (let stats = \<lparr>reset_checked = 0, reset = 0, reset_errors = 0\<rparr>
      in if query_fails then (stats, db)
         else (let expired_purchases = expired_purchases_at now db;
                   stats = stats\<lparr>reset_checked := length expired_purchases\<rparr>
               in reset_groups envs (subscriptions_to_update expired_purchases) stats db))"

section \<open>Daily charges\<close>

text \<open>
  What the charge unit meets outside its own code. \<open>panel_configured\<close> is
  \<open>RemnaWaveService().is_configured\<close>; \<open>panel_devices\<close> is the outcome of
  \<open>api.get_user_devices\<close>: an exception of any kind (a timeout among them), or a response
  whose \<open>total\<close> is a number or absent. \<open>user_lookup_fails\<close>: \<open>get_user_by_id\<close> (line 135)
  raises; it is awaited outside any \<open>try\<close> of the unit. \<open>debit_error\<close>: the store fails
  while debiting. \<open>ledger_fails\<close> and \<open>charge_time_fails\<close>: \<open>create_transaction\<close> and
  \<open>update_daily_charge_time\<close> raise inside the \<open>try\<close> of lines 178-232.
\<close>

datatype devices_reply = Api_failure | Api_response "int option"

record charge_env =
  panel_configured :: bool
  panel_devices :: devices_reply
  user_lookup_fails :: bool
  debit_error :: bool
  ledger_fails :: bool
  charge_time_fails :: bool

text \<open>
  \<open>_get_device_count\<close> (lines 98-123): 1 without a \<open>remnawave_uuid\<close> (\<open>None\<close> or the
  empty string), 1 when the panel is not configured, 1 on any exception, and otherwise
  \<open>max(1, int(response.get("total") or 0))\<close>.
\<close>

definition get_device_count :: "charge_env \<Rightarrow> user \<Rightarrow> int" where
  "get_device_count env user =
     (case remnawave_uuid user of
        None \<Rightarrow> 1
      | Some uuid \<Rightarrow>
          if uuid = [] then 1
          else if \<not> panel_configured env then 1
          else (case panel_devices env of
                  Api_failure \<Rightarrow> 1
                | Api_response total_devices \<Rightarrow>
                    max 1 (case total_devices of None \<Rightarrow> 0 | Some n \<Rightarrow> n)))"

datatype debit_result = Debit_success | Insufficient_funds | Debit_failed

text \<open>
  Modelled from the spec: \<open>subtract_user_balance\<close> of \<open>app/database/crud/user.py\<close> is not
  among the sources. It is the debit of the Ledger and Balance Store,
  \<open>debit(account_id, amount) -> success | insufficient_funds | error\<close>, an atomic check
  and decrement. The service takes any result but success as a failed debit.
\<close>

definition subtract_user_balance :: "bool \<Rightarrow> db_state \<Rightarrow> nat \<Rightarrow> int \<Rightarrow> debit_result \<times> db_state" where
  "subtract_user_balance store_error db uid amount =
     (if store_error then (Debit_failed, db)
      else (case users db uid of
              None \<Rightarrow> (Debit_failed, db)
            | Some u \<Rightarrow>
                if balance_kopeks u < amount then (Insufficient_funds, db)
                else (Debit_success,
                      db\<lparr>users := (users db)(uid \<mapsto> u\<lparr>balance_kopeks := balance_kopeks u - amount\<rparr>)\<rparr>)))"

text \<open>
  Modelled from the spec: \<open>create_transaction\<close> of \<open>app/database/crud/transaction.py\<close> is
  not among the sources. It appends one entry to the ledger.
\<close>

definition create_transaction :: "db_state \<Rightarrow> transaction \<Rightarrow> db_state" where
  "create_transaction db entry = db\<lparr>transactions := transactions db @ [entry]\<rparr>"

text \<open>
  Modelled from the spec: \<open>suspend_daily_subscription_insufficient_balance\<close> of
  \<open>app/database/crud/subscription.py\<close> is not among the sources. It sets the status to
  the disabled state.
\<close>

definition suspend_daily_subscription_insufficient_balance :: "db_state \<Rightarrow> nat \<Rightarrow> db_state" where
  "suspend_daily_subscription_insufficient_balance db sid =
     update_subscription sid (\<lambda>s. s\<lparr>status := Disabled\<rparr>) db"

text \<open>
  One billing cycle, in seconds: the notification of line 250 announces the next charge
  in 24 hours.
\<close>

definition billing_cycle :: int where
  "billing_cycle = 86400"

text \<open>
  Modelled from the spec: \<open>update_daily_charge_time\<close> of
  \<open>app/database/crud/subscription.py\<close> is not among the sources. The last charge becomes
  now, and the next charge is due one billing cycle later.
\<close>

definition update_daily_charge_time :: "int \<Rightarrow> db_state \<Rightarrow> nat \<Rightarrow> db_state" where
  "update_daily_charge_time now db sid =
     update_subscription sid
       (\<lambda>s. s\<lparr>last_daily_charge_at := Some now, next_charge_at := now + billing_cycle\<rparr>) db"

text \<open>
  Modelled from the spec: \<open>get_daily_subscriptions_for_charge\<close> of
  \<open>app/database/crud/subscription.py\<close> is not among the sources. A subscription is due
  when its per-day flag is set and its next charge is at or before now.
\<close>

definition due :: "int \<Rightarrow> subscription \<Rightarrow> bool" where
  "due now s = (is_daily s \<and> next_charge_at s \<le> now)"

definition get_daily_subscriptions_for_charge :: "int \<Rightarrow> db_state \<Rightarrow> subscription list" where
  "get_daily_subscriptions_for_charge now db = filter (due now) (subscriptions db)"

text \<open>\<open>subscription.tariff\<close>: the tariff row the subscription refers to, if any.\<close>

definition subscription_tariff :: "db_state \<Rightarrow> subscription \<Rightarrow> tariff option" where
  "subscription_tariff db s = (case tariff_id s of None \<Rightarrow> None | Some tid \<Rightarrow> tariffs db tid)"

datatype charge_outcome = Charged | Suspended | Error | Skipped

text \<open>Lines 173-176: the device count enters the description only above one.\<close>

definition payment_description :: "tariff \<Rightarrow> int \<Rightarrow> description" where
  "payment_description t device_count =
     (if device_count > 1 then Daily_payment (tariff_name t) (Some device_count)
      else Daily_payment (tariff_name t) None)"

text \<open>
  \<open>_process_single_charge\<close> (lines 125-232). \<open>subscription.user\<close> and, when it is empty,
  \<open>get_user_by_id\<close> both read the user row of \<open>subscription.user_id\<close>. The result is
  \<open>Inr\<close> of the returned string, or \<open>Inl\<close> when the unit raises. Notifications and the
  panel synchronisation (lines 163, 208-223) catch their own exceptions and write
  nothing to the store.
\<close>

definition process_single_charge ::
  "charge_env \<Rightarrow> int \<Rightarrow> db_state \<Rightarrow> subscription \<Rightarrow> (error + charge_outcome) \<times> db_state" where
  "process_single_charge env now db subscription =
     (case users db (sub_user_id subscription) of
        None \<Rightarrow> if user_lookup_fails env then (Inl Store_failure, db) else (Inr Error, db)
      | Some user \<Rightarrow>
          (case subscription_tariff db subscription of
             None \<Rightarrow> (Inr Error, db)
           | Some tariff \<Rightarrow>
               (let daily_price_per_device = daily_price_kopeks tariff
                in if daily_price_per_device \<le> 0 then (Inr Error, db)
                   else (let device_count = get_device_count env user;
                             total_daily_price = daily_price_per_device * device_count
                         in if balance_kopeks user < total_daily_price
                            then (Inr Suspended,
                                  suspend_daily_subscription_insufficient_balance db (sub_id subscription))
                            else (case subtract_user_balance (debit_error env) db
                                         (sub_user_id subscription) total_daily_price of
                                    (Debit_success, db1) \<Rightarrow>
                                      if ledger_fails env then (Inr Error, db1)
                                      else (let db2 = create_transaction db1
                                                  \<lparr>txn_user_id = sub_user_id subscription,
                                                   txn_type = Subscription_payment,
                                                   amount_kopeks = total_daily_price,
                                                   txn_description = payment_description tariff device_count,
                                                   txn_payment_method = Manual\<rparr>
                                            in if charge_time_fails env then (Inr Error, db2)
                                               else (Inr Charged,
                                                     update_daily_charge_time now db2 (sub_id subscription)))
                                  | (_, db1) \<Rightarrow> (Inr Error, db1))))))"

text \<open>
  The counters \<open>process_daily_charges\<close> returns: the dict with the keys \<open>checked\<close>,
  \<open>charged\<close>, \<open>suspended\<close> and \<open>errors\<close>.
\<close>

record charge_stats =
  checked :: nat
  charged :: nat
  suspended :: nat
  errors :: nat

text \<open>
  Lines 73-87: one subscription after the other. A unit that raises is caught and adds
  one to \<open>errors\<close>; the string \<open>skipped\<close> changes no counter.
\<close>

fun charge_subscriptions ::
  "(nat \<Rightarrow> charge_env) \<Rightarrow> int \<Rightarrow> subscription list \<Rightarrow> charge_stats \<Rightarrow> db_state
     \<Rightarrow> charge_stats \<times> db_state" where
  "charge_subscriptions envs now [] stats db = (stats, db)"
| "charge_subscriptions envs now (s # rest) stats db =
     (case process_single_charge (envs (sub_id s)) now db s of
        (Inr Charged, db') \<Rightarrow>
          charge_subscriptions envs now rest (stats\<lparr>charged := charged stats + 1\<rparr>) db'
      | (Inr Suspended, db') \<Rightarrow>
          charge_subscriptions envs now rest (stats\<lparr>suspended := suspended stats + 1\<rparr>) db'
      | (Inr Error, db') \<Rightarrow>
          charge_subscriptions envs now rest (stats\<lparr>errors := errors stats + 1\<rparr>) db'
      | (Inr Skipped, db') \<Rightarrow>
          charge_subscriptions envs now rest stats db'
      | (Inl _, db') \<Rightarrow>
          charge_subscriptions envs now rest (stats\<lparr>errors := errors stats + 1\<rparr>) db')"

text \<open>
  \<open>process_daily_charges\<close> (lines 53-96). When the query for the due subscriptions
  fails, the handler of line 89 logs and rolls back, and the counters are returned as
  they were initialised.
\<close>

definition process_daily_charges ::
  "bool \<Rightarrow> (nat \<Rightarrow> charge_env) \<Rightarrow> int \<Rightarrow> db_state \<Rightarrow> charge_stats \<times> db_state" where
  "process_daily_charges query_fails envs now db =
     (let stats = \<lparr>checked = 0, charged = 0, suspended = 0, errors = 0\<rparr>
      in if query_fails then (stats, db)
         else (let subscriptions = get_daily_subscriptions_for_charge now db;
                   stats = stats\<lparr>checked := length subscriptions\<rparr>
               in charge_subscriptions envs now subscriptions stats db))"

section \<open>Subscription status middleware\<close>

text \<open>
  \<open>data\<close> as \<open>SubscriptionStatusMiddleware.__call__\<close> reads it: whether \<open>data['db']\<close> holds a
  session, and \<open>data['db_user']\<close> with its \<open>subscription\<close> relationship.
\<close>

record db_user =
  db_user_id :: nat
  user_subscription :: "subscription option"

record handler_data =
  data_db :: bool
  data_db_user :: "db_user option"

text \<open>Lines 34-39: the check, and the two fields it writes.\<close>

definition expire_if_due :: "int \<Rightarrow> subscription \<Rightarrow> subscription" where
  "expire_if_due current_time subscription =
     (case end_date subscription of
        None \<Rightarrow> subscription
      | Some e \<Rightarrow>
          if status subscription = Active \<and> e \<le> current_time
          then subscription\<lparr>status := Expired, updated_at := current_time\<rparr>
          else subscription)"

text \<open>
  \<open>__call__\<close> (lines 19-47). The objects of \<open>data\<close> are changed in place; when
  \<open>db.commit()\<close> raises (\<open>commit_fails\<close>), the handler of line 44 logs, and the objects
  keep what was assigned. In every case the result is the handler's, called with \<open>data\<close>.
\<close>

definition subscription_status_check :: "int \<Rightarrow> handler_data \<Rightarrow> handler_data" where
  "subscription_status_check current_time data =
     (if data_db data then
        (case data_db_user data of
           None \<Rightarrow> data
         | Some u \<Rightarrow>
             (case user_subscription u of
                None \<Rightarrow> data
              | Some subscription \<Rightarrow>
                  data\<lparr>data_db_user :=
                    Some (u\<lparr>user_subscription := Some (expire_if_due current_time subscription)\<rparr>)\<rparr>))
      else data)"

definition subscription_status_middleware ::
  "bool \<Rightarrow> int \<Rightarrow> (handler_data \<Rightarrow> 'r) \<Rightarrow> handler_data \<Rightarrow> 'r \<times> handler_data" where
  "subscription_status_middleware commit_fails current_time handler data =
     (let data' = subscription_status_check current_time data
      in (handler data', data'))"

section \<open>Scenarios\<close>

text \<open>
  The store of scenario C of the specification: one subscription with a traffic limit of
  50 GB of which 20 GB are purchased, and one expired purchase of 20 GB.
\<close>

definition scenario_subscription :: subscription where
  "scenario_subscription =
     \<lparr>sub_id = 1, sub_user_id = 7, tariff_id = None, status = Active, end_date = None,
      traffic_limit_gb = 50, purchased_traffic_gb = Some 20, traffic_reset_at = Some 100,
      is_daily = True, last_daily_charge_at = None, next_charge_at = 0, updated_at = 0\<rparr>"

definition scenario_purchase :: traffic_purchase where
  "scenario_purchase = \<lparr>purchase_id = 1, subscription_id = 1, traffic_gb = 20, expires_at = 100\<rparr>"

definition scenario_reset_env :: reset_env where
  "scenario_reset_env =
     \<lparr>tariff_lookup_fails = False, notify_lookup_fails = False, bot = False, clock = 100\<rparr>"

definition scenario_db :: db_state where
  "scenario_db =
     \<lparr>users = Map.empty, tariffs = Map.empty, subscriptions = [scenario_subscription],
      purchases = [scenario_purchase], transactions = [], journal = []\<rparr>"

section \<open>The quota invariant\<close>

text \<open>
  The invariant of the data model: the traffic limit is at least the purchased traffic,
  and the purchased traffic (0 when the column is empty) is not negative.
\<close>

definition quota_invariant :: "subscription \<Rightarrow> bool" where
  "quota_invariant s = (traffic_limit_gb s \<ge> purchased_or_zero s \<and> purchased_or_zero s \<ge> 0)"

text \<open>
  A sequence of decay passes, as the loop of \<open>start_monitoring\<close> (lines 507-529) makes
  them: each with its own environment and its own reading of the clock.
\<close>

fun decay_passes :: "(bool \<times> (nat \<Rightarrow> reset_env) \<times> int) list \<Rightarrow> db_state \<Rightarrow> db_state" where
  "decay_passes [] db = db"
| "decay_passes ((query_fails, envs, now) # passes) db =
     decay_passes passes (snd (process_traffic_resets query_fails envs now db))"

section \<open>A store whose bookkeeping has drifted\<close>

text \<open>
  A subscription whose stored limit (5 GB) is below its purchased traffic (10 GB), with
  one expired purchase of 4 GB: once without a tariff, once with tariff 3, whose
  configured allotment is 30 GB.
\<close>

definition drifted_subscription :: subscription where
  "drifted_subscription =
     scenario_subscription\<lparr>traffic_limit_gb := 5, purchased_traffic_gb := Some 10\<rparr>"

definition small_purchase :: traffic_purchase where
  "small_purchase = scenario_purchase\<lparr>traffic_gb := 4\<rparr>"

definition drifted_db :: db_state where
  "drifted_db = scenario_db\<lparr>subscriptions := [drifted_subscription], purchases := [small_purchase]\<rparr>"

definition scenario_tariff :: tariff where
  "scenario_tariff =
     \<lparr>tariff_name = ''daily'', daily_price_kopeks = 100, tariff_traffic_limit_gb = Some 30\<rparr>"

definition tariffed_subscription :: subscription where
  "tariffed_subscription = drifted_subscription\<lparr>tariff_id := Some 3\<rparr>"

definition tariffed_db :: db_state where
  "tariffed_db =
     drifted_db\<lparr>subscriptions := [tariffed_subscription], tariffs := [3 \<mapsto> scenario_tariff]\<rparr>"

section \<open>A store with an orphaned purchase\<close>

text \<open>
  The store of scenario C without its subscription row: the expired purchase of 20 GB
  still names subscription 1.
\<close>

definition orphan_db :: db_state where
  "orphan_db = scenario_db\<lparr>subscriptions := []\<rparr>"

section \<open>Properties of the decay unit\<close>

lemma find_map_update:
  assumes "\<And>s. sub_id (f s) = sub_id s"
  shows "find (\<lambda>s. sub_id s = k) (map (\<lambda>s. if sub_id s = sid then f s else s) xs) =
        (if k = sid then map_option f (find (\<lambda>s. sub_id s = k) xs) else find (\<lambda>s. sub_id s = k) xs)"
  by (induction xs) (auto simp: assms)

lemma get_update_subscription:
  assumes "\<And>s. sub_id (f s) = sub_id s"
  shows "get_subscription (update_subscription sid f db) k =
         (if k = sid then map_option f (get_subscription db k) else get_subscription db k)"
  using find_map_update [of f k sid "subscriptions db", OF assms]
  by (simp add: get_subscription_def update_subscription_def)

lemma clamp_expired_le: "clamp_expired tot old \<le> old"
  by (simp add: clamp_expired_def)

lemma base_limit_used_nonneg: "0 \<le> base_limit_used b t"
  by (simp add: base_limit_used_def)

lemma new_limits_eq:
  "0 \<le> base \<Longrightarrow> tot \<le> old \<Longrightarrow> new_limits base old tot = (base + (old - tot), old - tot)"
  by (simp add: new_limits_def Let_def)

lemma new_limits_clamped:
  "new_limits (base_limit_used b t) old (clamp_expired tot old) =
     (base_limit_used b t + (old - clamp_expired tot old), old - clamp_expired tot old)"
  by (rule new_limits_eq [OF base_limit_used_nonneg clamp_expired_le])

lemma lookup_tariff_write_log: "lookup_tariff env (write_log e db) s = lookup_tariff env db s"
  by (simp add: lookup_tariff_def write_log_def split: option.splits)

lemma reset_unit_missing:
  "get_subscription db sid = None \<Longrightarrow> reset_subscription_traffic env db sid ps = (Inr (), db)"
  by (simp add: reset_subscription_traffic_def)

lemma reset_unit_lookup_fails:
  assumes "get_subscription db sid = Some s" "lookup_tariff env db s = Inl e"
  shows "fst (reset_subscription_traffic env db sid ps) = Inl e"
    and "subscriptions (snd (reset_subscription_traffic env db sid ps)) = subscriptions db"
    and "purchases (snd (reset_subscription_traffic env db sid ps)) = purchases db"
  using assms
  by (simp_all add: reset_subscription_traffic_def Let_def lookup_tariff_write_log)
     (simp_all add: write_log_def)

lemma reset_unit_written:
  assumes "get_subscription db sid = Some s" "lookup_tariff env db s = Inr t"
  shows "subscriptions (snd (reset_subscription_traffic env db sid ps)) =
           map (\<lambda>r. if sub_id r = sid
                    then r\<lparr>traffic_limit_gb :=
                             base_limit_used (traffic_limit_gb s - purchased_or_zero s) t +
                             (purchased_or_zero s - clamp_expired (sum_list (map traffic_gb ps)) (purchased_or_zero s)),
                           purchased_traffic_gb :=
                             Some (purchased_or_zero s - clamp_expired (sum_list (map traffic_gb ps)) (purchased_or_zero s)),
                           traffic_reset_at := next_expiry
                             (filter (\<lambda>p. subscription_id p = sid \<and> expires_at p > clock env)
                                (filter (\<lambda>p. p \<notin> set ps) (purchases db))),
                           updated_at := clock env\<rparr>
                    else r) (subscriptions db)"
    and "purchases (snd (reset_subscription_traffic env db sid ps)) = filter (\<lambda>p. p \<notin> set ps) (purchases db)"
  using assms
  by (simp_all add: reset_subscription_traffic_def Let_def lookup_tariff_write_log new_limits_clamped)
     (simp_all add: write_log_def delete_purchases_def update_subscription_def split: option.splits)

lemma reset_unit_journal:
  assumes "get_subscription db sid = Some s" "lookup_tariff env db s = Inr t"
  shows "journal (snd (reset_subscription_traffic env db sid ps)) =
           journal db
           @ (if sum_list (map traffic_gb ps) > purchased_or_zero s
              then [Data_error sid (sum_list (map traffic_gb ps)) (purchased_or_zero s)] else [])
           @ (case t of
                None \<Rightarrow> []
              | Some tt \<Rightarrow>
                  if traffic_limit_gb s - purchased_or_zero s < 0
                  then [Negative_base_limit sid (traffic_limit_gb s - purchased_or_zero s) (tariff_base_limit tt)]
                  else [])"
proof -
  have nocrit: "\<not> old < clamp_expired tot old" for old tot
    using clamp_expired_le [of tot old] by simp
  show ?thesis
    using assms
    by (simp add: reset_subscription_traffic_def Let_def lookup_tariff_write_log new_limits_clamped nocrit)
       (simp add: write_log_def delete_purchases_def update_subscription_def split: option.splits)
qed

lemma reset_unit_subscription:
  assumes "get_subscription db sid = Some s" "lookup_tariff env db s = Inr t"
  shows "get_subscription (snd (reset_subscription_traffic env db sid ps)) sid =
           Some (s\<lparr>traffic_limit_gb :=
                             base_limit_used (traffic_limit_gb s - purchased_or_zero s) t +
                             (purchased_or_zero s - clamp_expired (sum_list (map traffic_gb ps)) (purchased_or_zero s)),
                           purchased_traffic_gb :=
                             Some (purchased_or_zero s - clamp_expired (sum_list (map traffic_gb ps)) (purchased_or_zero s)),
                           traffic_reset_at := next_expiry
                             (filter (\<lambda>p. subscription_id p = sid \<and> expires_at p > clock env)
                                (filter (\<lambda>p. p \<notin> set ps) (purchases db))),
                           updated_at := clock env\<rparr>)"
  using assms(1)
  by (simp add: get_subscription_def reset_unit_written(1) [OF assms] find_map_update)

text \<open>
  Claim C3. When the decay unit processes a subscription (the row exists and the tariff
  lookup does not fail): an expired total above the stored purchased traffic is clamped
  to it and the data error is logged; every expired purchase of the group is deleted;
  the stored fields are \<open>purchased - clamped total\<close> and \<open>base limit + new purchased\<close>.
  Scenario C (limit 50, purchased 20, one lot of 20) gives limit 30 and purchased 0;
  scenario D (purchased 10 instead) reclaims 10 only, gives purchased 0 and logs the error.
\<close>
theorem decay_clamps_and_persists:
  assumes "get_subscription db sid = Some s"
    and "lookup_tariff env db s = Inr t"
  shows "(sum_list (map traffic_gb ps) > purchased_or_zero s \<longrightarrow>
            clamp_expired (sum_list (map traffic_gb ps)) (purchased_or_zero s) = purchased_or_zero s \<and>
            Data_error sid (sum_list (map traffic_gb ps)) (purchased_or_zero s)
              \<in> set (journal (snd (reset_subscription_traffic env db sid ps)))) \<and>
         (sum_list (map traffic_gb ps) \<le> purchased_or_zero s \<longrightarrow>
            clamp_expired (sum_list (map traffic_gb ps)) (purchased_or_zero s) = sum_list (map traffic_gb ps)) \<and>
         (\<forall>p \<in> set ps. p \<notin> set (purchases (snd (reset_subscription_traffic env db sid ps)))) \<and>
         map_option (\<lambda>s'. (traffic_limit_gb s', purchased_traffic_gb s'))
             (get_subscription (snd (reset_subscription_traffic env db sid ps)) sid) =
           Some (base_limit_used (traffic_limit_gb s - purchased_or_zero s) t +
                   (purchased_or_zero s - clamp_expired (sum_list (map traffic_gb ps)) (purchased_or_zero s)),
                 Some (purchased_or_zero s - clamp_expired (sum_list (map traffic_gb ps)) (purchased_or_zero s))) \<and>
         (traffic_limit_gb s = 50 \<and> purchased_traffic_gb s = Some 20 \<and> map traffic_gb ps = [20] \<longrightarrow>
            map_option (\<lambda>s'. (traffic_limit_gb s', purchased_traffic_gb s'))
               (get_subscription (snd (reset_subscription_traffic env db sid ps)) sid) = Some (30, Some 0)) \<and>
         (traffic_limit_gb s = 50 \<and> purchased_traffic_gb s = Some 10 \<and> map traffic_gb ps = [20] \<longrightarrow>
            clamp_expired (sum_list (map traffic_gb ps)) (purchased_or_zero s) = 10 \<and>
            map_option purchased_traffic_gb
               (get_subscription (snd (reset_subscription_traffic env db sid ps)) sid) = Some (Some 0) \<and>
            Data_error sid 20 10 \<in> set (journal (snd (reset_subscription_traffic env db sid ps))))"
proof -
  note sub = reset_unit_subscription [OF assms, of ps]
  note jou = reset_unit_journal [OF assms, of ps]
  note pur = reset_unit_written(2) [OF assms, of ps]
  have c1: "sum_list (map traffic_gb ps) > purchased_or_zero s \<longrightarrow>
            clamp_expired (sum_list (map traffic_gb ps)) (purchased_or_zero s) = purchased_or_zero s \<and>
            Data_error sid (sum_list (map traffic_gb ps)) (purchased_or_zero s)
              \<in> set (journal (snd (reset_subscription_traffic env db sid ps)))"
    by (simp add: jou clamp_expired_def)
  have c2: "sum_list (map traffic_gb ps) \<le> purchased_or_zero s \<longrightarrow>
            clamp_expired (sum_list (map traffic_gb ps)) (purchased_or_zero s) = sum_list (map traffic_gb ps)"
    by (simp add: clamp_expired_def)
  have c3: "\<forall>p \<in> set ps. p \<notin> set (purchases (snd (reset_subscription_traffic env db sid ps)))"
    by (simp add: pur)
  have c4: "map_option (\<lambda>s'. (traffic_limit_gb s', purchased_traffic_gb s'))
             (get_subscription (snd (reset_subscription_traffic env db sid ps)) sid) =
           Some (base_limit_used (traffic_limit_gb s - purchased_or_zero s) t +
                   (purchased_or_zero s - clamp_expired (sum_list (map traffic_gb ps)) (purchased_or_zero s)),
                 Some (purchased_or_zero s - clamp_expired (sum_list (map traffic_gb ps)) (purchased_or_zero s)))"
    by (simp add: sub)
  have c5: "traffic_limit_gb s = 50 \<and> purchased_traffic_gb s = Some 20 \<and> map traffic_gb ps = [20] \<longrightarrow>
            map_option (\<lambda>s'. (traffic_limit_gb s', purchased_traffic_gb s'))
               (get_subscription (snd (reset_subscription_traffic env db sid ps)) sid) = Some (30, Some 0)"
    by (simp add: sub purchased_or_zero_def clamp_expired_def base_limit_used_def split: option.splits)
  have c6: "traffic_limit_gb s = 50 \<and> purchased_traffic_gb s = Some 10 \<and> map traffic_gb ps = [20] \<longrightarrow>
            clamp_expired (sum_list (map traffic_gb ps)) (purchased_or_zero s) = 10 \<and>
            map_option purchased_traffic_gb
               (get_subscription (snd (reset_subscription_traffic env db sid ps)) sid) = Some (Some 0) \<and>
            Data_error sid 20 10 \<in> set (journal (snd (reset_subscription_traffic env db sid ps)))"
    by (simp add: sub jou purchased_or_zero_def clamp_expired_def)
  from c1 c2 c3 c4 c5 c6 show ?thesis by blast
qed

theorem decay_clamps_and_persists_witness:
  "get_subscription scenario_db 1 = Some scenario_subscription \<and>
   lookup_tariff scenario_reset_env scenario_db scenario_subscription = Inr None \<and>
   map_option (\<lambda>s'. (traffic_limit_gb s', purchased_traffic_gb s'))
     (get_subscription
        (snd (reset_subscription_traffic scenario_reset_env scenario_db 1 [scenario_purchase])) 1) =
     Some (30, Some 0)"
proof -
  have a: "get_subscription scenario_db 1 = Some scenario_subscription"
    by (simp add: get_subscription_def scenario_db_def scenario_subscription_def)
  have b: "lookup_tariff scenario_reset_env scenario_db scenario_subscription = Inr None"
    by (simp add: lookup_tariff_def scenario_subscription_def)
  have c: "traffic_limit_gb scenario_subscription = 50 \<and>
           purchased_traffic_gb scenario_subscription = Some 20 \<and>
           map traffic_gb [scenario_purchase] = [20]"
    by (simp add: scenario_subscription_def scenario_purchase_def)
  from decay_clamps_and_persists [OF a b, of "[scenario_purchase]"] c
  have "map_option (\<lambda>s'. (traffic_limit_gb s', purchased_traffic_gb s'))
     (get_subscription
        (snd (reset_subscription_traffic scenario_reset_env scenario_db 1 [scenario_purchase])) 1) =
     Some (30, Some 0)"
    by blast
  with a b show ?thesis by simp
qed

lemma clamp_expired_not_less: "\<not> old < clamp_expired tot old"
  using clamp_expired_le [of tot old] by simp

lemma reset_unit_cases:
  obtains (missing) "get_subscription db sid = None"
  | (fails) s e where "get_subscription db sid = Some s" "lookup_tariff env db s = Inl e"
  | (written) s t where "get_subscription db sid = Some s" "lookup_tariff env db s = Inr t"
proof (cases "get_subscription db sid")
  case None then show ?thesis by (rule missing)
next
  case (Some s)
  then show ?thesis
    by (cases "lookup_tariff env db s") (auto intro: fails written)
qed

lemma reset_unit_invariant:
  assumes "\<forall>r \<in> set (subscriptions db). quota_invariant r"
  shows "\<forall>r \<in> set (subscriptions (snd (reset_subscription_traffic env db sid ps))). quota_invariant r"
proof (cases rule: reset_unit_cases [where db=db and sid=sid and env=env])
  case missing
  then show ?thesis using assms by (simp add: reset_unit_missing)
next
  case (fails s e)
  then show ?thesis using assms by (simp add: reset_unit_lookup_fails(2))
next
  case (written s t)
  have "0 \<le> purchased_or_zero s - clamp_expired (sum_list (map traffic_gb ps)) (purchased_or_zero s)"
    using clamp_expired_le [of "sum_list (map traffic_gb ps)" "purchased_or_zero s"] by simp
  then show ?thesis
    using assms base_limit_used_nonneg [of "traffic_limit_gb s - purchased_or_zero s" t]
    by (auto simp: reset_unit_written(1) [OF written] quota_invariant_def purchased_or_zero_def)
qed

lemma reset_groups_invariant:
  "\<forall>r \<in> set (subscriptions db). quota_invariant r \<Longrightarrow>
   \<forall>r \<in> set (subscriptions (snd (reset_groups envs groups stats db))). quota_invariant r"
proof (induction groups arbitrary: stats db)
  case Nil
  then show ?case by simp
next
  case (Cons g groups)
  obtain sid ps where g: "g = (sid, ps)" by (cases g)
  obtain r db' where u: "reset_subscription_traffic (envs sid) db sid ps = (r, db')"
    by (cases "reset_subscription_traffic (envs sid) db sid ps")
  have "\<forall>r \<in> set (subscriptions db'). quota_invariant r"
    using reset_unit_invariant [OF Cons.prems, where env="envs sid" and sid=sid and ps=ps] u by simp
  then show ?case
    using Cons.IH u g by (cases r) simp_all
qed

lemma process_traffic_resets_invariant:
  "\<forall>r \<in> set (subscriptions db). quota_invariant r \<Longrightarrow>
   \<forall>r \<in> set (subscriptions (snd (process_traffic_resets q envs now db))). quota_invariant r"
  by (simp add: process_traffic_resets_def Let_def reset_groups_invariant del: Set.ball_simps)

lemma decay_passes_invariant:
  "\<forall>r \<in> set (subscriptions db). quota_invariant r \<Longrightarrow>
   \<forall>r \<in> set (subscriptions (decay_passes passes db)). quota_invariant r"
proof (induction passes arbitrary: db)
  case Nil
  then show ?case by simp
next
  case (Cons pass passes)
  obtain q envs now where "pass = (q, envs, now)" by (cases pass)
  then show ?case
    using Cons.IH [OF process_traffic_resets_invariant [OF Cons.prems, where q=q and envs=envs and now=now]] by simp
qed

text \<open>
  Claim C2. A decay pass preserves the invariant \<open>traffic_limit \<ge> purchased_traffic \<ge> 0\<close>:
  the fields the unit stores for the subscription it processes satisfy it (whatever was
  stored before); a pass over a store whose subscriptions all satisfy it leaves a store
  whose subscriptions all satisfy it; and so does any sequence of passes, so the
  purchased traffic never becomes negative.
\<close>

theorem decay_preserves_quota_invariant:
  "(get_subscription db sid = Some s \<and> lookup_tariff env db s = Inr t \<longrightarrow>
      map_option quota_invariant
        (get_subscription (snd (reset_subscription_traffic env db sid ps)) sid) = Some True) \<and>
   ((\<forall>r \<in> set (subscriptions db). quota_invariant r) \<longrightarrow>
      (\<forall>r \<in> set (subscriptions (snd (process_traffic_resets q envs now db))). quota_invariant r)) \<and>
   ((\<forall>r \<in> set (subscriptions db). quota_invariant r) \<longrightarrow>
      (\<forall>r \<in> set (subscriptions (decay_passes passes db)).
         quota_invariant r \<and> 0 \<le> purchased_or_zero r))"
proof -
  have unit: "map_option quota_invariant
        (get_subscription (snd (reset_subscription_traffic env db sid ps)) sid) = Some True"
    if a: "get_subscription db sid = Some s" and b: "lookup_tariff env db s = Inr t"
  proof -
    have "0 \<le> purchased_or_zero s - clamp_expired (sum_list (map traffic_gb ps)) (purchased_or_zero s)"
      using clamp_expired_le [of "sum_list (map traffic_gb ps)" "purchased_or_zero s"] by simp
    then show ?thesis
      using base_limit_used_nonneg [of "traffic_limit_gb s - purchased_or_zero s" t]
      by (simp add: reset_unit_subscription [OF a b] quota_invariant_def purchased_or_zero_def)
  qed
  have pass: "\<forall>r \<in> set (subscriptions (snd (process_traffic_resets q envs now db))). quota_invariant r"
    if "\<forall>r \<in> set (subscriptions db). quota_invariant r"
    using that by (rule process_traffic_resets_invariant)
  have passes: "\<forall>r \<in> set (subscriptions (decay_passes passes db)).
         quota_invariant r \<and> 0 \<le> purchased_or_zero r"
    if "\<forall>r \<in> set (subscriptions db). quota_invariant r"
    using decay_passes_invariant [OF that, of passes] by (auto simp: quota_invariant_def)
  from unit pass passes show ?thesis by blast
qed

theorem decay_preserves_quota_invariant_witness:
  "list_all quota_invariant (subscriptions scenario_db) \<and>
   list_all quota_invariant
     (subscriptions (snd (process_traffic_resets False (\<lambda>_. scenario_reset_env) 100 scenario_db))) \<and>
   list_all quota_invariant
     (subscriptions (decay_passes
        [(False, \<lambda>_. scenario_reset_env, 100), (False, \<lambda>_. scenario_reset_env, 200)] scenario_db))"
proof -
  have a: "\<forall>r \<in> set (subscriptions scenario_db). quota_invariant r"
    by (simp add: scenario_db_def scenario_subscription_def quota_invariant_def purchased_or_zero_def)
  from decay_preserves_quota_invariant
         [of scenario_db _ _ _ _ _ False "\<lambda>_. scenario_reset_env" 100
             "[(False, \<lambda>_. scenario_reset_env, 100), (False, \<lambda>_. scenario_reset_env, 200)]"] a
  show ?thesis
    by (simp add: list_all_iff del: decay_passes.simps)
qed

text \<open>
  Claim C8, as the code has it. For a subscription the decay unit processes, with
  \<open>base_limit = traffic_limit - purchased_traffic\<close> negative: when the subscription's
  tariff is found, the unit falls back to the tariff's configured allotment (0 when it
  is not set) and logs the warning; when the subscription has no tariff or the tariff
  row is missing (the guards of lines 396 and 399), there is no fallback and no
  warning, and the base limit used is 0. In every case the base limit used is not
  negative, and it is the difference of the two stored fields.
\<close>

theorem base_limit_fallback:
  assumes "get_subscription db sid = Some s"
    and "lookup_tariff env db s = Inr t"
  shows "(\<forall>tt. t = Some tt \<and> traffic_limit_gb s - purchased_or_zero s < 0 \<longrightarrow>
            base_limit_used (traffic_limit_gb s - purchased_or_zero s) t = max 0 (tariff_base_limit tt) \<and>
            Negative_base_limit sid (traffic_limit_gb s - purchased_or_zero s) (tariff_base_limit tt)
              \<in> set (journal (snd (reset_subscription_traffic env db sid ps)))) \<and>
         (t = None \<and> traffic_limit_gb s - purchased_or_zero s < 0 \<longrightarrow>
            base_limit_used (traffic_limit_gb s - purchased_or_zero s) t = 0 \<and>
            journal (snd (reset_subscription_traffic env db sid ps)) =
              journal db @
              (if sum_list (map traffic_gb ps) > purchased_or_zero s
               then [Data_error sid (sum_list (map traffic_gb ps)) (purchased_or_zero s)] else [])) \<and>
         0 \<le> base_limit_used (traffic_limit_gb s - purchased_or_zero s) t \<and>
         map_option (\<lambda>s'. traffic_limit_gb s' - purchased_or_zero s')
             (get_subscription (snd (reset_subscription_traffic env db sid ps)) sid) =
           Some (base_limit_used (traffic_limit_gb s - purchased_or_zero s) t)"
proof -
  note sub = reset_unit_subscription [OF assms, of ps]
  note jou = reset_unit_journal [OF assms, of ps]
  have c1: "\<forall>tt. t = Some tt \<and> traffic_limit_gb s - purchased_or_zero s < 0 \<longrightarrow>
            base_limit_used (traffic_limit_gb s - purchased_or_zero s) t = max 0 (tariff_base_limit tt) \<and>
            Negative_base_limit sid (traffic_limit_gb s - purchased_or_zero s) (tariff_base_limit tt)
              \<in> set (journal (snd (reset_subscription_traffic env db sid ps)))"
    by (simp add: jou base_limit_used_def)
  have c2: "t = None \<and> traffic_limit_gb s - purchased_or_zero s < 0 \<longrightarrow>
            base_limit_used (traffic_limit_gb s - purchased_or_zero s) t = 0 \<and>
            journal (snd (reset_subscription_traffic env db sid ps)) =
              journal db @
              (if sum_list (map traffic_gb ps) > purchased_or_zero s
               then [Data_error sid (sum_list (map traffic_gb ps)) (purchased_or_zero s)] else [])"
    by (simp add: jou base_limit_used_def)
  have c3: "0 \<le> base_limit_used (traffic_limit_gb s - purchased_or_zero s) t"
    by (rule base_limit_used_nonneg)
  have c4: "map_option (\<lambda>s'. traffic_limit_gb s' - purchased_or_zero s')
             (get_subscription (snd (reset_subscription_traffic env db sid ps)) sid) =
           Some (base_limit_used (traffic_limit_gb s - purchased_or_zero s) t)"
    by (simp add: sub purchased_or_zero_def)
  from c1 c2 c3 c4 show ?thesis by blast
qed

theorem base_limit_fallback_witness:
  "get_subscription tariffed_db 1 = Some tariffed_subscription \<and>
   lookup_tariff scenario_reset_env tariffed_db tariffed_subscription = Inr (Some scenario_tariff) \<and>
   traffic_limit_gb tariffed_subscription - purchased_or_zero tariffed_subscription = - 5 \<and>
   base_limit_used (- 5) (Some scenario_tariff) = 30 \<and>
   Negative_base_limit 1 (- 5) 30
     \<in> set (journal (snd (reset_subscription_traffic scenario_reset_env tariffed_db 1 [small_purchase]))) \<and>
   map_option (\<lambda>s'. traffic_limit_gb s' - purchased_or_zero s')
     (get_subscription (snd (reset_subscription_traffic scenario_reset_env tariffed_db 1 [small_purchase])) 1) =
     Some 30"
proof -
  have a: "get_subscription tariffed_db 1 = Some tariffed_subscription"
    by (simp add: get_subscription_def tariffed_db_def tariffed_subscription_def
          drifted_subscription_def scenario_subscription_def)
  have b: "lookup_tariff scenario_reset_env tariffed_db tariffed_subscription = Inr (Some scenario_tariff)"
    by (simp add: lookup_tariff_def tariffed_db_def tariffed_subscription_def scenario_reset_env_def)
  have c: "traffic_limit_gb tariffed_subscription - purchased_or_zero tariffed_subscription = - 5"
    by (simp add: tariffed_subscription_def drifted_subscription_def purchased_or_zero_def)
  have d: "tariff_base_limit scenario_tariff = 30"
    by (simp add: tariff_base_limit_def scenario_tariff_def)
  from base_limit_fallback [OF a b, of "[small_purchase]"] c d
  have "base_limit_used (- 5) (Some scenario_tariff) = 30 \<and>
   Negative_base_limit 1 (- 5) 30
     \<in> set (journal (snd (reset_subscription_traffic scenario_reset_env tariffed_db 1 [small_purchase]))) \<and>
   map_option (\<lambda>s'. traffic_limit_gb s' - purchased_or_zero s')
     (get_subscription (snd (reset_subscription_traffic scenario_reset_env tariffed_db 1 [small_purchase])) 1) =
     Some 30"
    by auto
  with a b c show ?thesis by simp
qed

text \<open>
  The claim as it is stated fails for a subscription without a tariff: the base limit
  5 - 10 is negative, the unit returns, nothing is logged, and the stored limit is the
  purchased traffic that remains (the base limit used is 0).
\<close>

theorem base_limit_fallback_counterexample:
  "get_subscription drifted_db 1 = Some drifted_subscription \<and>
   tariff_id drifted_subscription = None \<and>
   traffic_limit_gb drifted_subscription - purchased_or_zero drifted_subscription = - 5 \<and>
   fst (reset_subscription_traffic scenario_reset_env drifted_db 1 [small_purchase]) = Inr () \<and>
   journal (snd (reset_subscription_traffic scenario_reset_env drifted_db 1 [small_purchase])) = [] \<and>
   map_option (\<lambda>s'. (traffic_limit_gb s', purchased_traffic_gb s'))
     (get_subscription (snd (reset_subscription_traffic scenario_reset_env drifted_db 1 [small_purchase])) 1) =
     Some (6, Some 6)"
proof -
  have a: "get_subscription drifted_db 1 = Some drifted_subscription"
    by (simp add: get_subscription_def drifted_db_def drifted_subscription_def scenario_subscription_def)
  have b: "lookup_tariff scenario_reset_env drifted_db drifted_subscription = Inr None"
    by (simp add: lookup_tariff_def drifted_subscription_def scenario_subscription_def)
  have c: "purchased_or_zero drifted_subscription = 10" "traffic_limit_gb drifted_subscription = 5"
    "tariff_id drifted_subscription = None"
    by (simp_all add: drifted_subscription_def purchased_or_zero_def scenario_subscription_def)
  have d: "sum_list (map traffic_gb [small_purchase]) = 4"
    by (simp add: small_purchase_def)
  have e: "fst (reset_subscription_traffic scenario_reset_env drifted_db 1 [small_purchase]) = Inr ()"
    using a b
    by (simp add: reset_subscription_traffic_def Let_def lookup_tariff_write_log
          scenario_reset_env_def split: prod.splits)
  have f: "journal drifted_db = []"
    by (simp add: drifted_db_def scenario_db_def)
  have j: "journal (snd (reset_subscription_traffic scenario_reset_env drifted_db 1 [small_purchase])) = []"
    using reset_unit_journal [OF a b, of "[small_purchase]"] c d f by simp
  have g: "map_option (\<lambda>s'. (traffic_limit_gb s', purchased_traffic_gb s'))
     (get_subscription (snd (reset_subscription_traffic scenario_reset_env drifted_db 1 [small_purchase])) 1) =
     Some (6, Some 6)"
    using reset_unit_subscription [OF a b, of "[small_purchase]"] c d
    by (simp add: clamp_expired_def base_limit_used_def)
  from a c e j g show ?thesis by simp
qed

section \<open>Properties of the grouping and of a decay pass\<close>

lemma add_to_group_keys:
  "\<forall>(k, qs) \<in> set g. \<forall>q \<in> set qs. subscription_id q = k \<Longrightarrow>
   \<forall>(k, qs) \<in> set (add_to_group p g). \<forall>q \<in> set qs. subscription_id q = k"
  by (induction p g rule: add_to_group.induct) auto

lemma add_to_group_subset:
  "\<forall>(k, qs) \<in> set g. set qs \<subseteq> A \<Longrightarrow> p \<in> A \<Longrightarrow>
   \<forall>(k, qs) \<in> set (add_to_group p g). set qs \<subseteq> A"
  by (induction p g rule: add_to_group.induct) auto

lemma add_to_group_self:
  "\<exists>qs. (subscription_id p, qs) \<in> set (add_to_group p g) \<and> p \<in> set qs"
  by (induction p g rule: add_to_group.induct) auto

lemma add_to_group_keeps:
  "(k, qs) \<in> set g \<Longrightarrow> q \<in> set qs \<Longrightarrow>
   \<exists>qs'. (k, qs') \<in> set (add_to_group p g) \<and> q \<in> set qs'"
  by (induction p g rule: add_to_group.induct) auto

lemma add_to_group_count:
  "sum_list (map (\<lambda>(k, qs). if Q k then length qs else 0) (add_to_group p g)) =
   sum_list (map (\<lambda>(k, qs). if Q k then length qs else 0) g) + (if Q (subscription_id p) then 1 else 0)"
  by (induction p g rule: add_to_group.induct) auto

lemma foldl_groups_keys:
  "\<forall>(k, qs) \<in> set g. \<forall>q \<in> set qs. subscription_id q = k \<Longrightarrow>
   \<forall>(k, qs) \<in> set (foldl (\<lambda>groups p. add_to_group p groups) g ps). \<forall>q \<in> set qs. subscription_id q = k"
proof (induction ps arbitrary: g)
  case Nil
  then show ?case by simp
next
  case (Cons a ps)
  have "\<forall>(k, qs) \<in> set (add_to_group a g). \<forall>q \<in> set qs. subscription_id q = k"
    using Cons.prems by (rule add_to_group_keys)
  from Cons.IH [OF this] show ?case by simp
qed

lemma foldl_groups_subset:
  "\<forall>(k, qs) \<in> set g. set qs \<subseteq> A \<Longrightarrow> set ps \<subseteq> A \<Longrightarrow>
   \<forall>(k, qs) \<in> set (foldl (\<lambda>groups p. add_to_group p groups) g ps). set qs \<subseteq> A"
proof (induction ps arbitrary: g)
  case Nil
  then show ?case by simp
next
  case (Cons a ps)
  have "\<forall>(k, qs) \<in> set (add_to_group a g). set qs \<subseteq> A"
    using Cons.prems by (intro add_to_group_subset) simp_all
  from Cons.IH [OF this] Cons.prems show ?case by simp
qed

lemma foldl_groups_keeps:
  "(k, qs) \<in> set g \<Longrightarrow> q \<in> set qs \<Longrightarrow>
   \<exists>qs'. (k, qs') \<in> set (foldl (\<lambda>groups p. add_to_group p groups) g ps) \<and> q \<in> set qs'"
proof (induction ps arbitrary: g qs)
  case Nil
  then show ?case by auto
next
  case (Cons p ps)
  from add_to_group_keeps [OF Cons.prems, of p]
  obtain qs' where "(k, qs') \<in> set (add_to_group p g)" "q \<in> set qs'" by blast
  from Cons.IH [OF this] show ?case by simp
qed

lemma foldl_groups_covers:
  "p \<in> set ps \<Longrightarrow>
   \<exists>qs. (subscription_id p, qs) \<in> set (foldl (\<lambda>groups p. add_to_group p groups) g ps) \<and> p \<in> set qs"
proof (induction ps arbitrary: g)
  case Nil
  then show ?case by simp
next
  case (Cons a ps)
  show ?case
  proof (cases "p = a")
    case True
    from add_to_group_self [of a g]
    obtain qs where "(subscription_id a, qs) \<in> set (add_to_group a g)" "a \<in> set qs" by blast
    from foldl_groups_keeps [OF this, of ps] True show ?thesis by simp
  next
    case False
    with Cons.prems have "p \<in> set ps" by simp
    from Cons.IH [OF this, of "add_to_group a g"] show ?thesis by simp
  qed
qed

lemma foldl_groups_count:
  "sum_list (map (\<lambda>(k, qs). if Q k then length qs else 0) (foldl (\<lambda>groups p. add_to_group p groups) g ps)) =
   sum_list (map (\<lambda>(k, qs). if Q k then length qs else 0) g) + length (filter (\<lambda>p. Q (subscription_id p)) ps)"
  by (induction ps arbitrary: g) (simp_all add: add_to_group_count)

lemma groups_keys:
  "(k, qs) \<in> set (subscriptions_to_update ps) \<Longrightarrow> q \<in> set qs \<Longrightarrow> subscription_id q = k"
  using foldl_groups_keys [of "[]" ps] by (auto simp: subscriptions_to_update_def)

lemma groups_subset:
  "(k, qs) \<in> set (subscriptions_to_update ps) \<Longrightarrow> set qs \<subseteq> set ps"
  using foldl_groups_subset [of "[]" "set ps" ps] by (auto simp: subscriptions_to_update_def)

lemma groups_cover:
  "p \<in> set ps \<Longrightarrow> \<exists>qs. (subscription_id p, qs) \<in> set (subscriptions_to_update ps) \<and> p \<in> set qs"
  using foldl_groups_covers [of p ps "[]"] by (simp add: subscriptions_to_update_def)

lemma groups_count:
  "sum_list (map (\<lambda>(k, qs). if Q k then length qs else 0) (subscriptions_to_update ps)) =
   length (filter (\<lambda>p. Q (subscription_id p)) ps)"
  using foldl_groups_count [of Q "[]" ps] by (simp add: subscriptions_to_update_def)

lemma reset_unit_exists:
  "(get_subscription (snd (reset_subscription_traffic env db sid ps)) k = None) =
   (get_subscription db k = None)"
proof (cases rule: reset_unit_cases [where db=db and sid=sid and env=env])
  case missing
  then show ?thesis by (simp add: reset_unit_missing)
next
  case (fails s e)
  then show ?thesis by (simp add: get_subscription_def reset_unit_lookup_fails(2))
next
  case (written s t)
  show ?thesis
    by (simp add: get_subscription_def reset_unit_written(1) [OF written] find_map_update)
qed

lemma reset_unit_purchases_subset:
  "set (purchases (snd (reset_subscription_traffic env db sid ps))) \<subseteq> set (purchases db)"
proof (cases rule: reset_unit_cases [where db=db and sid=sid and env=env])
  case missing
  then show ?thesis by (simp add: reset_unit_missing)
next
  case (fails s e)
  then show ?thesis by (simp add: reset_unit_lookup_fails(3))
next
  case (written s t)
  show ?thesis by (auto simp: reset_unit_written(2) [OF written])
qed

lemma reset_unit_purchases_kept:
  assumes "p \<in> set (purchases db)" "p \<notin> set ps"
  shows "p \<in> set (purchases (snd (reset_subscription_traffic env db sid ps)))"
proof (cases rule: reset_unit_cases [where db=db and sid=sid and env=env])
  case missing
  then show ?thesis using assms by (simp add: reset_unit_missing)
next
  case (fails s e)
  then show ?thesis using assms by (simp add: reset_unit_lookup_fails(3))
next
  case (written s t)
  show ?thesis using assms by (simp add: reset_unit_written(2) [OF written])
qed

lemma reset_unit_deletes:
  assumes "get_subscription db sid \<noteq> None" "\<not> tariff_lookup_fails env" "p \<in> set ps"
  shows "p \<notin> set (purchases (snd (reset_subscription_traffic env db sid ps)))"
proof -
  from assms(1) obtain s where s: "get_subscription db sid = Some s" by auto
  from assms(2) have "\<exists>t. lookup_tariff env db s = Inr t"
    by (simp add: lookup_tariff_def split: option.splits)
  then obtain t where t: "lookup_tariff env db s = Inr t" ..
  show ?thesis using assms(3) by (simp add: reset_unit_written(2) [OF s t])
qed

lemma reset_groups_step:
  "reset_groups envs ((sid, ps) # groups) stats db =
     reset_groups envs groups
       (case fst (reset_subscription_traffic (envs sid) db sid ps) of
          Inr _ \<Rightarrow> stats\<lparr>reset := reset stats + length ps\<rparr>
        | Inl _ \<Rightarrow> stats\<lparr>reset_errors := reset_errors stats + 1\<rparr>)
       (snd (reset_subscription_traffic (envs sid) db sid ps))"
  by (cases "reset_subscription_traffic (envs sid) db sid ps")
     (simp split: sum.splits)

lemma reset_groups_exists:
  "(get_subscription (snd (reset_groups envs groups stats db)) k = None) =
   (get_subscription db k = None)"
proof (induction groups arbitrary: stats db)
  case Nil
  then show ?case by simp
next
  case (Cons g groups)
  obtain sid ps where g: "g = (sid, ps)" by (cases g)
  show ?case
    unfolding g reset_groups_step
    by (simp add: Cons.IH reset_unit_exists)
qed

lemma reset_groups_purchases_subset:
  "set (purchases (snd (reset_groups envs groups stats db))) \<subseteq> set (purchases db)"
proof (induction groups arbitrary: stats db)
  case Nil
  then show ?case by simp
next
  case (Cons g groups)
  obtain sid ps where g: "g = (sid, ps)" by (cases g)
  show ?case
    unfolding g reset_groups_step
    using Cons.IH reset_unit_purchases_subset by blast
qed

lemma reset_groups_orphans_only:
  "\<forall>(k, qs) \<in> set groups. get_subscription db k = None \<Longrightarrow>
   reset_groups envs groups stats db =
     (stats\<lparr>reset := reset stats + sum_list (map (\<lambda>(k, qs). length qs) groups)\<rparr>, db)"
proof (induction groups arbitrary: stats)
  case Nil
  then show ?case by simp
next
  case (Cons g groups)
  obtain sid ps where g: "g = (sid, ps)" by (cases g)
  have m: "get_subscription db sid = None" using Cons.prems g by simp
  have r: "\<forall>(k, qs) \<in> set groups. get_subscription db k = None" using Cons.prems by simp
  show ?case
    unfolding g reset_groups_step
    by (simp add: reset_unit_missing [OF m] Cons.IH [OF r] add.assoc)
qed

lemma reset_groups_keeps_orphan:
  assumes "p \<in> set (purchases db)"
    and "get_subscription db (subscription_id p) = None"
    and "\<forall>(k, qs) \<in> set groups. \<forall>q \<in> set qs. subscription_id q = k"
  shows "p \<in> set (purchases (snd (reset_groups envs groups stats db)))"
  using assms
proof (induction groups arbitrary: stats db)
  case Nil
  then show ?case by simp
next
  case (Cons g groups)
  obtain sid ps where g: "g = (sid, ps)" by (cases g)
  let ?db = "snd (reset_subscription_traffic (envs sid) db sid ps)"
  have keep: "p \<in> set (purchases ?db)"
  proof (cases "sid = subscription_id p")
    case True
    then show ?thesis using Cons.prems(1,2) by (simp add: reset_unit_missing)
  next
    case False
    then have "p \<notin> set ps" using Cons.prems(3) g by auto
    with Cons.prems(1) show ?thesis by (rule reset_unit_purchases_kept)
  qed
  have orphan: "get_subscription ?db (subscription_id p) = None"
    using Cons.prems(2) by (simp add: reset_unit_exists)
  have keys: "\<forall>(k, qs) \<in> set groups. \<forall>q \<in> set qs. subscription_id q = k"
    using Cons.prems(3) by simp
  show ?case
    unfolding g reset_groups_step
    by (rule Cons.IH [OF keep orphan keys])
qed

lemma reset_groups_deletes:
  assumes "(k, qs) \<in> set groups" "p \<in> set qs"
    and "get_subscription db k \<noteq> None"
    and "\<forall>sid. \<not> tariff_lookup_fails (envs sid)"
  shows "p \<notin> set (purchases (snd (reset_groups envs groups stats db)))"
  using assms(1,3)
proof (induction groups arbitrary: stats db)
  case Nil
  then show ?case by simp
next
  case (Cons g groups)
  obtain sid ps where g: "g = (sid, ps)" by (cases g)
  let ?db = "snd (reset_subscription_traffic (envs sid) db sid ps)"
  have ex: "get_subscription ?db k \<noteq> None"
    using Cons.prems(2) by (simp add: reset_unit_exists)
  show ?case
  proof (cases "(k, qs) = g")
    case True
    then have e: "k = sid" "qs = ps" using g by simp_all
    have a: "get_subscription db sid \<noteq> None" using Cons.prems(2) e by simp
    have b: "\<not> tariff_lookup_fails (envs sid)" using assms(4) by simp
    have c: "p \<in> set ps" using assms(2) e by simp
    have "p \<notin> set (purchases ?db)" by (rule reset_unit_deletes [OF a b c])
    then show ?thesis
      unfolding g reset_groups_step
      using reset_groups_purchases_subset by blast
  next
    case False
    then have "(k, qs) \<in> set groups" using Cons.prems(1) by simp
    from Cons.IH [OF this ex] show ?thesis
      unfolding g reset_groups_step .
  qed
qed

lemma reset_groups_reset_bound:
  "reset stats + sum_list (map (\<lambda>(k, qs). if get_subscription db k = None then length qs else 0) groups)
     \<le> reset (fst (reset_groups envs groups stats db))"
proof (induction groups arbitrary: stats db)
  case Nil
  then show ?case by simp
next
  case (Cons g groups)
  obtain sid ps where g: "g = (sid, ps)" by (cases g)
  let ?r = "fst (reset_subscription_traffic (envs sid) db sid ps)"
  let ?db = "snd (reset_subscription_traffic (envs sid) db sid ps)"
  let ?stats = "case ?r of Inr _ \<Rightarrow> stats\<lparr>reset := reset stats + length ps\<rparr>
        | Inl _ \<Rightarrow> stats\<lparr>reset_errors := reset_errors stats + 1\<rparr>"
  have same: "(\<lambda>(k, qs). if get_subscription ?db k = None then length qs else 0) =
              (\<lambda>(k, qs). if get_subscription db k = None then length qs else (0::nat))"
    by (simp add: reset_unit_exists)
  have first: "reset stats + (if get_subscription db sid = None then length ps else 0) \<le> reset ?stats"
    by (cases "get_subscription db sid") (auto simp: reset_unit_missing split: sum.splits)
  from Cons.IH [of ?stats ?db] first show ?case
    unfolding g reset_groups_step same by simp
qed

end
